theory Spec2Isabelle
  imports Main
begin

section \<open>Diagnostics and results\<close>

text \<open>
  The validator of \<^verbatim>\<open>internal/validate/spec.go\<close> reports through
  \<^verbatim>\<open>errors.New(code, format, args...)\<close>. A diagnostic is kept as the code, the
  format string exactly as the source writes it, and the arguments handed to it; the
  text \<^verbatim>\<open>fmt.Sprintf\<close> would render is a function of these three. An argument is a
  string (\<open>S\<close>), an integer (\<open>D\<close>), a slice of strings (\<open>V\<close>) or the string that an
  inner \<^verbatim>\<open>fmt.Sprintf(format, args...)\<close> renders (\<open>F\<close>). An error that
  comes from a collaborator (the resolver, the JSON-pointer lookup, the JSON decoder, the
  reference expander) is opaque: the second constructor, with the collaborator's own
  message.
\<close>

datatype arg = S string | D nat | V "string list" | F string "arg list"

datatype error = New nat string "arg list" | Failure string

text \<open>
  Modelled from the spec: the type \<^verbatim>\<open>Result\<close> is declared outside the files at hand.
  Section 4.A: an append-only sink; \<^verbatim>\<open>merge\<close> concatenates; \<^verbatim>\<open>hasErrors\<close> is true iff
  the error sequence is non-empty. Errors and warnings are returned as two results, so
  one sequence per result is enough here.
\<close>

record Result =
  Errors :: "error list"

definition new_Result :: Result where
  "new_Result = \<lparr>Errors = []\<rparr>"

definition AddErrors :: "Result \<Rightarrow> error list \<Rightarrow> Result" where
  "AddErrors res es = res\<lparr>Errors := Errors res @ es\<rparr>"

definition Merge :: "Result \<Rightarrow> Result \<Rightarrow> Result" where
  "Merge res other = res\<lparr>Errors := Errors res @ Errors other\<rparr>"

definition HasErrors :: "Result \<Rightarrow> bool" where
  "HasErrors res = (Errors res \<noteq> [])"

section \<open>Duplicate operation identifiers\<close>

text \<open>
  \<^verbatim>\<open>known := make(map[string]int)\<close> with \<^verbatim>\<open>known[v]++\<close>: a missing key reads as 0.
  The map is an association list with one entry per key. Go leaves the order in which
  \<^verbatim>\<open>range\<close> visits a map open; the list order stands for one such order, and the
  statements below are about the set of diagnostics.
\<close>

fun known_incr :: "(string \<times> nat) list \<Rightarrow> string \<Rightarrow> (string \<times> nat) list" where
  "known_incr [] v = [(v, 1)]"
| "known_incr ((k, n) # known) v =
     (if k = v then (k, Suc n) # known else (k, n) # known_incr known v)"

definition count_ids :: "string list \<Rightarrow> (string \<times> nat) list" where
  "count_ids ids =
     foldl (\<lambda>known v. if v \<noteq> '''' then known_incr known v else known) [] ids"

definition duplicate_id_error :: "string \<Rightarrow> nat \<Rightarrow> error" where
  "duplicate_id_error k v = New 422 ''%q is defined %d times'' [S k, D v]"

definition validateDuplicateOperationIDs :: "string list \<Rightarrow> Result" where
  "validateDuplicateOperationIDs ids =
     foldl (\<lambda>res (k, v). if v > 1 then AddErrors res [duplicate_id_error k v] else res)
       new_Result (count_ids ids)"

section \<open>Schemas and the resolver\<close>

text \<open>
  \<^verbatim>\<open>spec.Schema\<close>, with the fields the validator reads. \<^verbatim>\<open>Ref\<close> is \<^verbatim>\<open>None\<close> when
  \<^verbatim>\<open>sch.Ref.GetURL()\<close> is nil and otherwise holds \<^verbatim>\<open>sch.Ref.String()\<close>. The Go maps
  \<^verbatim>\<open>Properties\<close> and \<^verbatim>\<open>PatternProperties\<close> are association lists in the order in which
  \<^verbatim>\<open>range\<close> visits them. \<^verbatim>\<open>AdditionalProperties\<close> is the optional \<^verbatim>\<open>SchemaOrBool\<close>
  (\<^verbatim>\<open>Allows\<close>, \<^verbatim>\<open>Schema\<close>), \<^verbatim>\<open>Items\<close> the optional \<^verbatim>\<open>SchemaOrArray\<close>
  (\<^verbatim>\<open>Schema\<close>, \<^verbatim>\<open>Schemas\<close>).
\<close>

datatype schema = Schema
  (Ref: "string option")
  (Type: "string list")
  (AllOf: "schema list")
  (Properties: "(string \<times> schema) list")
  (PatternProperties: "(string \<times> schema) list")
  (AdditionalProperties: "(bool \<times> schema option) option")
  (Items: "(schema option \<times> schema list) option")
  (Required: "string list")

text \<open>
  A Go panic is a value: \<^verbatim>\<open>panic(err)\<close>, a nil dereference, a failed type assertion,
  \<^verbatim>\<open>regexp.MustCompile\<close> on a pattern that does not compile. A function that can panic
  returns \<open>panic + 'a\<close>.
\<close>

datatype panic = Panic error | NilDereference | TypeAssertion | MustCompile string

text \<open>
  \<^verbatim>\<open>spec.ResolveRef(s.spec.Spec(), &sch.Ref)\<close> belongs to the loader; it is a parameter,
  from the pointer string to the schema it names or the message of the resolver's error.
\<close>

type_synonym resolver = "string \<Rightarrow> string + schema"

type_synonym names = "string set"

text \<open>
  The opening block the two walkers share: a schema that carries a reference is replaced
  by its referent and the schema name becomes the pointer string; a failed resolution
  panics.
\<close>

definition resolveSchema :: "resolver \<Rightarrow> string \<Rightarrow> schema \<Rightarrow> panic + (string \<times> schema)" where
  "resolveSchema ResolveRef nm sch =
     (case Ref sch of
        None \<Rightarrow> Inr (nm, sch)
      | Some r \<Rightarrow>
          (case ResolveRef r of
             Inl err \<Rightarrow> Inl (Panic (Failure err))
           | Inr reso \<Rightarrow> Inr (r, reso)))"

section \<open>Circular ancestry\<close>

text \<open>
  \<^verbatim>\<open>validateCircularAncestry\<close>. The map \<^verbatim>\<open>knowns\<close> is shared by all calls, so it is
  passed in and returned. Inside the reference block the source stores the pointer in
  \<^verbatim>\<open>knowns\<close> and only then asks whether \<^verbatim>\<open>knowns\<close> holds it. The loop over
  \<^verbatim>\<open>schc.AllOf\<close> is the second function, with the \<^verbatim>\<open>ancs\<close> collected so far.
\<close>

lemma size_AllOf: "size_list size (AllOf s) < size s"
  by (cases s) simp

lemma size_AllOf_double: "2 * size_list size (AllOf s) < Suc (2 * size s)"
  using size_AllOf [of s] by simp

function validateCircularAncestry ::
    "resolver \<Rightarrow> string \<Rightarrow> schema \<Rightarrow> names \<Rightarrow> panic + (string list \<times> names)"
  and validateCircularAncestry_allOf ::
    "resolver \<Rightarrow> string \<Rightarrow> schema list \<Rightarrow> string list \<Rightarrow> names
       \<Rightarrow> panic + (string list \<times> names)"
where
  "validateCircularAncestry ResolveRef nm sch knowns =
     (case resolveSchema ResolveRef nm sch of
        Inl p \<Rightarrow> Inl p
      | Inr (schn, schc) \<Rightarrow>
          (let knowns' = (if Ref sch \<noteq> None then insert schn knowns else knowns);
               ancs = (if schn \<in> knowns' then [schn] else [])
           in if length ancs > 0 then Inr (ancs, knowns')
              else validateCircularAncestry_allOf ResolveRef schn (AllOf schc) ancs knowns'))"
| "validateCircularAncestry_allOf ResolveRef schn [] ancs knowns = Inr (ancs, knowns)"
| "validateCircularAncestry_allOf ResolveRef schn (chld # rest) ancs knowns =
     (case validateCircularAncestry ResolveRef schn chld knowns of
        Inl p \<Rightarrow> Inl p
      | Inr (found, knowns') \<Rightarrow>
          (let ancs' = ancs @ found
           in if length ancs' > 0 then Inr (ancs', knowns')
              else validateCircularAncestry_allOf ResolveRef schn rest ancs' knowns'))"
  by pat_completeness auto

termination
proof (relation "measure (\<lambda>x. case x of
          Inl (_, _, sch, _) \<Rightarrow> 2 * size sch + 2
        | Inr (_, _, chlds, _, _) \<Rightarrow> 2 * size_list size chlds + 1)", goal_cases)
  case 1
  then show ?case by simp
next
  case 2
  then show ?case
    by (auto simp: resolveSchema_def size_AllOf_double
        split: option.splits sum.splits if_splits)
next
  case 3
  then show ?case by simp
next
  case 4
  then show ?case by simp
qed

declare validateCircularAncestry.simps(1) [simp del]

section \<open>Duplicate inherited property names\<close>

datatype dupProp = DupProp (dup_Name: string) (dup_Definition: string)

text \<open>
  The loop \<^verbatim>\<open>for k := range schc.Properties\<close> of \<^verbatim>\<open>validateSchemaPropertyNames\<close>.
\<close>

fun propertyNames ::
  "string \<Rightarrow> (string \<times> schema) list \<Rightarrow> dupProp list \<Rightarrow> names \<Rightarrow> dupProp list \<times> names" where
  "propertyNames schn [] dups knowns = (dups, knowns)"
| "propertyNames schn ((k, _) # props) dups knowns =
     (if k \<in> knowns then propertyNames schn props (dups @ [DupProp k schn]) knowns
      else propertyNames schn props dups (insert k knowns))"

text \<open>
  \<^verbatim>\<open>validateSchemaPropertyNames\<close> follows references with no record of the pointers it
  has crossed, so the recursion need not end. The first argument bounds the depth of the
  calls; \<^verbatim>\<open>None\<close> says the bound was reached.
\<close>

fun validateSchemaPropertyNames ::
    "nat \<Rightarrow> resolver \<Rightarrow> string \<Rightarrow> schema \<Rightarrow> names \<Rightarrow> (panic + dupProp list \<times> names) option"
  and validateSchemaPropertyNames_allOf ::
    "nat \<Rightarrow> resolver \<Rightarrow> string \<Rightarrow> schema list \<Rightarrow> dupProp list \<Rightarrow> names
       \<Rightarrow> (panic + dupProp list \<times> names) option"
where
  "validateSchemaPropertyNames 0 ResolveRef nm sch knowns = None"
| "validateSchemaPropertyNames (Suc fuel) ResolveRef nm sch knowns =
     (case resolveSchema ResolveRef nm sch of
        Inl p \<Rightarrow> Some (Inl p)
      | Inr (schn, schc) \<Rightarrow>
          if length (AllOf schc) > 0
          then validateSchemaPropertyNames_allOf fuel ResolveRef schn (AllOf schc) [] knowns
          else Some (Inr (propertyNames schn (Properties schc) [] knowns)))"
| "validateSchemaPropertyNames_allOf fuel ResolveRef schn [] dups knowns =
     Some (Inr (dups, knowns))"
| "validateSchemaPropertyNames_allOf fuel ResolveRef schn (chld # rest) dups knowns =
     (case validateSchemaPropertyNames fuel ResolveRef schn chld knowns of
        None \<Rightarrow> None
      | Some (Inl p) \<Rightarrow> Some (Inl p)
      | Some (Inr (found, knowns')) \<Rightarrow>
          validateSchemaPropertyNames_allOf fuel ResolveRef schn rest (dups @ found) knowns')"

definition circular_ancestry_error :: "string \<Rightarrow> string list \<Rightarrow> error" where
  "circular_ancestry_error k ancs =
     New 422 ''definition %q has circular ancestry: %v'' [S k, V ancs]"

definition duplicate_properties_error :: "string \<Rightarrow> dupProp list \<Rightarrow> error" where
  "duplicate_properties_error k dups =
     New 422 ''definition %q contains duplicate properties: %v''
       [S k, V (map (\<lambda>v. dup_Definition v @ ''.'' @ dup_Name v) dups)]"

text \<open>
  \<^verbatim>\<open>validateDuplicatePropertyNames\<close>: the loop over \<^verbatim>\<open>s.spec.Spec().Definitions\<close>, an
  association list in the order of the visit, with the result built so far. On circular
  ancestry the source returns from the whole function.
\<close>

fun validateDuplicatePropertyNames_range ::
  "nat \<Rightarrow> resolver \<Rightarrow> (string \<times> schema) list \<Rightarrow> Result \<Rightarrow> (panic + Result) option" where
  "validateDuplicatePropertyNames_range fuel ResolveRef [] res = Some (Inr res)"
| "validateDuplicatePropertyNames_range fuel ResolveRef ((k, sch) # defs) res =
     (if length (AllOf sch) = 0
      then validateDuplicatePropertyNames_range fuel ResolveRef defs res
      else
        (case validateCircularAncestry ResolveRef k sch {''#/definitions/'' @ k} of
           Inl p \<Rightarrow> Some (Inl p)
         | Inr (ancs, _) \<Rightarrow>
             if length ancs > 0
             then Some (Inr (AddErrors res [circular_ancestry_error k ancs]))
             else
               (case validateSchemaPropertyNames fuel ResolveRef k sch {} of
                  None \<Rightarrow> None
                | Some (Inl p) \<Rightarrow> Some (Inl p)
                | Some (Inr (dups, _)) \<Rightarrow>
                    validateDuplicatePropertyNames_range fuel ResolveRef defs
                      (if length dups > 0
                       then AddErrors res [duplicate_properties_error k dups]
                       else res))))"

definition validateDuplicatePropertyNames ::
  "nat \<Rightarrow> resolver \<Rightarrow> (string \<times> schema) list \<Rightarrow> (panic + Result) option" where
  "validateDuplicatePropertyNames fuel ResolveRef defs =
     validateDuplicatePropertyNames_range fuel ResolveRef defs new_Result"

section \<open>Parameters, headers, responses, operations\<close>

text \<open>
  Modelled from the spec: \<^verbatim>\<open>spec.Items\<close>, \<^verbatim>\<open>spec.Parameter\<close> and \<^verbatim>\<open>spec.Header\<close> with
  their accessors \<^verbatim>\<open>TypeName()\<close> and \<^verbatim>\<open>ItemsTypeName()\<close> are declared outside the files
  at hand. Section 4.E: a node that declares type array must have an element schema that
  exists and is non-empty. \<^verbatim>\<open>TypeName()\<close> is kept as the name it returns;
  \<^verbatim>\<open>ItemsTypeName()\<close> is the type name of the element, empty when there is no element.
\<close>

datatype items = SimpleItems (items_TypeName: string) (items_Items: "items option")

definition ItemsTypeName :: "items option \<Rightarrow> string" where
  "ItemsTypeName its = (case its of None \<Rightarrow> '''' | Some it \<Rightarrow> items_TypeName it)"

record parameter =
  param_Name :: string
  param_In :: string
  param_Ref :: string
  param_TypeName :: string
  param_Items :: "items option"
  param_Schema :: "schema option"

record header =
  header_TypeName :: string
  header_Items :: "items option"

record response =
  resp_Headers :: "(string \<times> header) list"
  resp_Schema :: "schema option"

record responses =
  Default :: "response option"
  StatusCodeResponses :: "(nat \<times> response) list"

record operation =
  ID :: string
  Parameters :: "parameter list"
  Responses :: "responses option"

text \<open>
  \<^verbatim>\<open>spec.Document\<close> as what its accessors return: \<^verbatim>\<open>Operations()\<close> (method to path to
  operation, both maps in the order of the visit), \<^verbatim>\<open>ParamsFor(method, path)\<close>,
  \<^verbatim>\<open>OperationIDs()\<close> and \<^verbatim>\<open>Spec().Definitions\<close>.
\<close>

record document =
  Operations :: "(string \<times> (string \<times> operation) list) list"
  ParamsFor :: "string \<Rightarrow> string \<Rightarrow> parameter list"
  OperationIDs :: "string list"
  Definitions :: "(string \<times> schema) list"

section \<open>Arrays without an element type\<close>

definition collection_error :: "string \<Rightarrow> arg \<Rightarrow> string \<Rightarrow> error" where
  "collection_error fmt subject opID = New 422 fmt [subject, S opID]"

definition param_collection_error :: "string \<Rightarrow> string \<Rightarrow> error" where
  "param_collection_error name opID =
     collection_error ''param %q for %q is a collection without an element type'' (S name) opID"

definition header_collection_error :: "string \<Rightarrow> string \<Rightarrow> error" where
  "header_collection_error hn opID =
     collection_error ''header %q for %q is a collection without an element type'' (S hn) opID"

definition schema_collection_error :: "arg \<Rightarrow> string \<Rightarrow> error" where
  "schema_collection_error prefix opID =
     collection_error ''%s for %q is a collection without an element type'' prefix opID"

text \<open>
  The loop \<^verbatim>\<open>for items.TypeName() == "array"\<close> of \<^verbatim>\<open>validateItems\<close>: \<^verbatim>\<open>True\<close> when it
  leaves through the \<^verbatim>\<open>break\<close> that follows the error. \<^verbatim>\<open>items = items.Items\<close> is
  reached only when the element type name is not empty.
\<close>

fun nested_items_missing :: "items \<Rightarrow> bool" where
  "nested_items_missing (SimpleItems tn its) =
     (if tn = ''array''
      then (if ItemsTypeName its = '''' then True
            else (case its of None \<Rightarrow> False | Some it \<Rightarrow> nested_items_missing it))
      else False)"

text \<open>
  Modelled from the spec: \<^verbatim>\<open>SchemaOrArray.Len()\<close> is declared outside the files at hand;
  it counts the element schemas: one for the single-schema form, the length of the
  sequence otherwise (section 3: items is either one schema or an ordered sequence).
\<close>

definition SchemaOrArray_Len :: "schema option \<times> schema list \<Rightarrow> nat" where
  "SchemaOrArray_Len its = (case fst its of Some _ \<Rightarrow> 1 | None \<Rightarrow> length (snd its))"

definition element_schemas :: "schema option \<times> schema list \<Rightarrow> schema list" where
  "element_schemas its = (case fst its of Some sch \<Rightarrow> [sch] | None \<Rightarrow> snd its)"

lemma size_element_schemas:
  "size_list size (element_schemas its)
     \<le> size_prod (size_option size) (size_list size) its"
  by (cases its) (auto simp: element_schemas_def split: option.splits)

function validateSchemaItems :: "schema \<Rightarrow> arg \<Rightarrow> string \<Rightarrow> error option"
  and validateSchemaItems_range :: "schema list \<Rightarrow> arg \<Rightarrow> string \<Rightarrow> error option"
where
  "validateSchemaItems sch prefix opID =
     (if ''array'' \<notin> set (Type sch) then None
      else
        (case Items sch of
           None \<Rightarrow> Some (schema_collection_error prefix opID)
         | Some its \<Rightarrow>
             if SchemaOrArray_Len its = 0 then Some (schema_collection_error prefix opID)
             else validateSchemaItems_range (element_schemas its) prefix opID))"
| "validateSchemaItems_range [] prefix opID = None"
| "validateSchemaItems_range (sch # schemas) prefix opID =
     (case validateSchemaItems sch prefix opID of
        Some err \<Rightarrow> Some err
      | None \<Rightarrow> validateSchemaItems_range schemas prefix opID)"
  by pat_completeness auto
termination
proof (relation "measure (\<lambda>x. case x of
          Inl (sch, _, _) \<Rightarrow> 2 * size sch
        | Inr (schemas, _, _) \<Rightarrow> 2 * size_list size schemas + 1)", goal_cases)
  case 1
  then show ?case by simp
next
  case (2 sch prefix opID its)
  then show ?case
    using size_element_schemas [of its] by (cases sch) simp
next
  case 3
  then show ?case by simp
next
  case 4
  then show ?case by simp
qed

declare validateSchemaItems.simps(1) [simp del]

text \<open>The body of the loop over \<^verbatim>\<open>s.spec.ParamsFor(method, path)\<close>.\<close>

definition validateItems_param :: "operation \<Rightarrow> parameter \<Rightarrow> panic + error list" where
  "validateItems_param op param =
     (if param_TypeName param = ''array'' \<and> ItemsTypeName (param_Items param) = ''''
      then Inr [param_collection_error (param_Name param) (ID op)]
      else if param_In param \<noteq> ''body''
      then
        (case param_Items param of
           None \<Rightarrow> Inr []
         | Some its \<Rightarrow>
             Inr (if nested_items_missing its
                  then [param_collection_error (param_Name param) (ID op)] else []))
      else
        (case param_Schema param of
           None \<Rightarrow> Inl NilDereference
         | Some sch \<Rightarrow>
             (case validateSchemaItems sch (F ''body param %q'' [S (param_Name param)]) (ID op) of
                Some err \<Rightarrow> Inr [err]
              | None \<Rightarrow> Inr [])))"

fun validateItems_params :: "operation \<Rightarrow> parameter list \<Rightarrow> Result \<Rightarrow> panic + Result" where
  "validateItems_params op [] res = Inr res"
| "validateItems_params op (param # params) res =
     (case validateItems_param op param of
        Inl p \<Rightarrow> Inl p
      | Inr errs \<Rightarrow> validateItems_params op params (AddErrors res errs))"

text \<open>The responses gathered from \<^verbatim>\<open>op.Responses\<close>, and the loop over them.\<close>

definition gathered_responses :: "operation \<Rightarrow> response list" where
  "gathered_responses op =
     (case Responses op of
        None \<Rightarrow> []
      | Some rs \<Rightarrow>
          (case Default rs of None \<Rightarrow> [] | Some d \<Rightarrow> [d]) @ map snd (StatusCodeResponses rs))"

definition validateItems_response :: "operation \<Rightarrow> response \<Rightarrow> error list" where
  "validateItems_response op resp =
     concat (map (\<lambda>(hn, hv).
        if header_TypeName hv = ''array'' \<and> ItemsTypeName (header_Items hv) = ''''
        then [header_collection_error hn (ID op)] else []) (resp_Headers resp))
     @ (case resp_Schema resp of
          None \<Rightarrow> []
        | Some sch \<Rightarrow>
            (case validateSchemaItems sch (S ''response body'') (ID op) of
               Some err \<Rightarrow> [err]
             | None \<Rightarrow> []))"

definition validateItems_operation ::
  "document \<Rightarrow> string \<Rightarrow> string \<Rightarrow> operation \<Rightarrow> Result \<Rightarrow> panic + Result" where
  "validateItems_operation doc method path op res =
     (case validateItems_params op (ParamsFor doc method path) res of
        Inl p \<Rightarrow> Inl p
      | Inr res' \<Rightarrow>
          Inr (AddErrors res' (concat (map (validateItems_response op) (gathered_responses op)))))"

fun validateItems_paths ::
  "document \<Rightarrow> string \<Rightarrow> (string \<times> operation) list \<Rightarrow> Result \<Rightarrow> panic + Result" where
  "validateItems_paths doc method [] res = Inr res"
| "validateItems_paths doc method ((path, op) # pi) res =
     (case validateItems_operation doc method path op res of
        Inl p \<Rightarrow> Inl p
      | Inr res' \<Rightarrow> validateItems_paths doc method pi res')"

fun validateItems_methods ::
  "document \<Rightarrow> (string \<times> (string \<times> operation) list) list \<Rightarrow> Result \<Rightarrow> panic + Result" where
  "validateItems_methods doc [] res = Inr res"
| "validateItems_methods doc ((method, pi) # ops) res =
     (case validateItems_paths doc method pi res of
        Inl p \<Rightarrow> Inl p
      | Inr res' \<Rightarrow> validateItems_methods doc ops res')"

definition validateItems :: "document \<Rightarrow> panic + Result" where
  "validateItems doc = validateItems_methods doc (Operations doc) new_Result"

section \<open>Path templates and parameters\<close>

text \<open>
  \<^verbatim>\<open>strings.Split(path, "/")\<close> and \<^verbatim>\<open>strings.Join(knowns, "/")\<close> of the Go library, for
  a separator of one character: splitting the empty string gives one empty segment.
\<close>

fun strings_Split :: "string \<Rightarrow> char \<Rightarrow> string list" where
  "strings_Split [] sep = [[]]"
| "strings_Split (c # cs) sep =
     (if c = sep then [] # strings_Split cs sep
      else (case strings_Split cs sep of
              [] \<Rightarrow> [[c]]
            | p # ps \<Rightarrow> (c # p) # ps))"

fun strings_Join :: "string list \<Rightarrow> char \<Rightarrow> string" where
  "strings_Join [] sep = []"
| "strings_Join [p] sep = p"
| "strings_Join (p # q # ps) sep = p @ sep # strings_Join (q # ps) sep"

definition is_param_segment :: "string \<Rightarrow> bool" where
  "is_param_segment p \<longleftrightarrow> length p > 0 \<and> hd p = CHR ''{'' \<and> last p = CHR ''}''"

definition parsePath :: "string \<Rightarrow> string list \<times> nat list" where
  "parsePath path =
     (let segments = strings_Split path CHR ''/''
      in (segments, filter (\<lambda>i. is_param_segment (segments ! i)) [0..<length segments]))"

text \<open>
  The start of the loop body of \<^verbatim>\<open>validateParameters\<close>: \<^verbatim>\<open>fromPath\<close> collects the
  parameter segments, \<^verbatim>\<open>knowns\<close> is the copy of the segments in which each of them is
  overwritten with \<^verbatim>\<open>"!"\<close>, and \<^verbatim>\<open>knownPath\<close> joins it again.
\<close>

definition path_knowns :: "string \<Rightarrow> string list \<times> string list" where
  "path_knowns path =
     (let (segments, params) = parsePath path
      in foldl (\<lambda>(fromPath, knowns) i. (fromPath @ [knowns ! i], knowns[i := ''!'']))
           ([], segments) params)"

definition path_knownPath :: "string \<Rightarrow> string" where
  "path_knownPath path = strings_Join (snd (path_knowns path)) CHR ''/''"

definition path_fromPath :: "string \<Rightarrow> string list" where
  "path_fromPath path = fst (path_knowns path)"

definition overlap_error :: "string \<Rightarrow> string \<Rightarrow> error" where
  "overlap_error path orig = New 422 ''path %s overlaps with %s'' [S path, S orig]"

definition no_definition_error :: "string \<Rightarrow> error" where
  "no_definition_error l = New 422 ''path param %q has no parameter definition'' [S l]"

definition not_in_path_error :: "string \<Rightarrow> string \<Rightarrow> error" where
  "not_in_path_error p path = New 422 ''path param %q is not present in path %q'' [S p, S path]"

definition validatePathParamPresence :: "string \<Rightarrow> string list \<Rightarrow> string list \<Rightarrow> Result" where
  "validatePathParamPresence path fromPath fromOperation =
     (let res = new_Result;
          res = foldl (\<lambda>res l.
                  if \<not> list_ex (\<lambda>r. l = ''{'' @ r @ ''}'') fromOperation
                  then res\<lparr>Errors := Errors res @ [no_definition_error l]\<rparr> else res)
                res fromPath;
          res = foldl (\<lambda>res p.
                  if \<not> list_ex (\<lambda>r. ''{'' @ p @ ''}'' = r) fromPath
                  then AddErrors res [not_in_path_error p path] else res)
                res fromOperation
      in res)"

text \<open>
  \<^verbatim>\<open>pr.Ref.GetPointer().Get(sw)\<close> belongs to the JSON-pointer library; it is a parameter that
  gives the object at the pointer or the message of its error. The source asserts the object to be a
  \<^verbatim>\<open>spec.Parameter\<close>, which panics for any other object.
\<close>

datatype object = ParameterObject parameter | OtherObject

type_synonym pointer_get = "string \<Rightarrow> string + object"

definition resolveParameter :: "pointer_get \<Rightarrow> parameter \<Rightarrow> panic + (error + parameter)" where
  "resolveParameter Get ppr =
     (if param_Ref ppr \<noteq> ''''
      then
        (case Get (param_Ref ppr) of
           Inl err \<Rightarrow> Inr (Inl (Failure err))
         | Inr (ParameterObject pr) \<Rightarrow> Inr (Inr pr)
         | Inr OtherObject \<Rightarrow> Inl TypeAssertion)
      else Inr (Inr ppr))"

definition duplicate_parameter_error :: "string \<Rightarrow> string \<Rightarrow> string \<Rightarrow> error" where
  "duplicate_parameter_error name in' opID =
     New 422 ''duplicate parameter name %q for %q in operation %q'' [S name, S in', S opID]"

definition more_than_one_body_error :: "string \<Rightarrow> string \<Rightarrow> string \<Rightarrow> error" where
  "more_than_one_body_error opID firstBodyParam name =
     New 422 ''operation %q has more than 1 body param (accepted: %q, dropped: %q)''
       [S opID, S firstBodyParam, S name]"

text \<open>
  The loop over \<^verbatim>\<open>op.Parameters\<close>: \<^verbatim>\<open>ptypes\<close> maps each \<^verbatim>\<open>in\<close> to the names seen for
  it. A reference that does not resolve adds its error and leaves the loop.
\<close>

fun validateParameters_unique ::
  "pointer_get \<Rightarrow> string \<Rightarrow> parameter list \<Rightarrow> (string \<rightharpoonup> names) \<Rightarrow> Result \<Rightarrow> panic + Result"
where
  "validateParameters_unique Get opID [] ptypes res = Inr res"
| "validateParameters_unique Get opID (ppr # rest) ptypes res =
     (case resolveParameter Get ppr of
        Inl p \<Rightarrow> Inl p
      | Inr (Inl err) \<Rightarrow> Inr (AddErrors res [err])
      | Inr (Inr pr) \<Rightarrow>
          (let pnames = (case ptypes (param_In pr) of None \<Rightarrow> {} | Some pnames \<Rightarrow> pnames);
               res' = (if param_Name pr \<in> pnames
                       then AddErrors res
                              [duplicate_parameter_error (param_Name pr) (param_In pr) opID]
                       else res)
           in validateParameters_unique Get opID rest
                (ptypes(param_In pr \<mapsto> insert (param_Name pr) pnames)) res'))"

text \<open>
  The loop over \<^verbatim>\<open>s.spec.ParamsFor(method, path)\<close>, with \<^verbatim>\<open>firstBodyParam\<close> and
  \<^verbatim>\<open>paramNames\<close>; it returns the names of the path parameters with the result.
\<close>

fun validateParameters_scan ::
  "pointer_get \<Rightarrow> string \<Rightarrow> parameter list \<Rightarrow> string \<Rightarrow> string list \<Rightarrow> Result
     \<Rightarrow> panic + (string list \<times> Result)"
where
  "validateParameters_scan Get opID [] firstBodyParam paramNames res = Inr (paramNames, res)"
| "validateParameters_scan Get opID (ppr # rest) firstBodyParam paramNames res =
     (case resolveParameter Get ppr of
        Inl p \<Rightarrow> Inl p
      | Inr (Inl err) \<Rightarrow> Inr (paramNames, AddErrors res [err])
      | Inr (Inr pr) \<Rightarrow>
          (let res' = (if param_In pr = ''body'' \<and> firstBodyParam \<noteq> ''''
                       then AddErrors res
                              [more_than_one_body_error opID firstBodyParam (param_Name pr)]
                       else res);
               firstBodyParam' = (if param_In pr = ''body'' then param_Name pr
                                  else firstBodyParam);
               paramNames' = (if param_In pr = ''path'' then paramNames @ [param_Name pr]
                              else paramNames)
           in validateParameters_scan Get opID rest firstBodyParam' paramNames' res'))"

text \<open>The body of the loop \<^verbatim>\<open>for path, op := range pi\<close>.\<close>

definition validateParameters_operation ::
  "pointer_get \<Rightarrow> document \<Rightarrow> string \<Rightarrow> string \<Rightarrow> operation \<Rightarrow> (string \<rightharpoonup> string) \<Rightarrow> Result
     \<Rightarrow> panic + ((string \<rightharpoonup> string) \<times> Result)" where
  "validateParameters_operation Get doc method path op knownPaths res =
     (let (res1, knownPaths') =
            (case knownPaths (path_knownPath path) of
               Some orig \<Rightarrow> (AddErrors res [overlap_error path orig], knownPaths)
             | None \<Rightarrow> (res, knownPaths(path_knownPath path \<mapsto> path)))
      in case validateParameters_unique Get (ID op) (Parameters op) Map.empty res1 of
           Inl p \<Rightarrow> Inl p
         | Inr res2 \<Rightarrow>
             (case validateParameters_scan Get (ID op) (ParamsFor doc method path) '''' [] res2 of
                Inl p \<Rightarrow> Inl p
              | Inr (paramNames, res3) \<Rightarrow>
                  Inr (knownPaths',
                       Merge res3 (validatePathParamPresence path (path_fromPath path) paramNames))))"

fun validateParameters_paths ::
  "pointer_get \<Rightarrow> document \<Rightarrow> string \<Rightarrow> (string \<times> operation) list \<Rightarrow> (string \<rightharpoonup> string)
     \<Rightarrow> Result \<Rightarrow> panic + Result" where
  "validateParameters_paths Get doc method [] knownPaths res = Inr res"
| "validateParameters_paths Get doc method ((path, op) # pi) knownPaths res =
     (case validateParameters_operation Get doc method path op knownPaths res of
        Inl p \<Rightarrow> Inl p
      | Inr (knownPaths', res') \<Rightarrow> validateParameters_paths Get doc method pi knownPaths' res')"

fun validateParameters_methods ::
  "pointer_get \<Rightarrow> document \<Rightarrow> (string \<times> (string \<times> operation) list) list \<Rightarrow> Result
     \<Rightarrow> panic + Result" where
  "validateParameters_methods Get doc [] res = Inr res"
| "validateParameters_methods Get doc ((method, pi) # ops) res =
     (case validateParameters_paths Get doc method pi Map.empty res of
        Inl p \<Rightarrow> Inl p
      | Inr res' \<Rightarrow> validateParameters_methods Get doc ops res')"

definition validateParameters :: "pointer_get \<Rightarrow> document \<Rightarrow> panic + Result" where
  "validateParameters Get doc = validateParameters_methods Get doc (Operations doc) new_Result"

section \<open>Required properties of definitions\<close>

text \<open>
  \<^verbatim>\<open>regexp.MustCompile(pp)\<close> and \<^verbatim>\<open>re.MatchString(pn)\<close> belong to the Go library; the
  parameter gives for a pattern the set of strings it matches, or \<^verbatim>\<open>None\<close> when the
  pattern does not compile, in which case \<^verbatim>\<open>MustCompile\<close> panics.
\<close>

type_synonym regexp = "string \<Rightarrow> (string \<Rightarrow> bool) option"

definition required_error :: "string \<Rightarrow> string \<Rightarrow> error" where
  "required_error pn d =
     New 422 ''%q is present in required but not defined as property in defintion %q''
       [S pn, S d]"

text \<open>
  The loop over \<^verbatim>\<open>v.PatternProperties\<close>: \<^verbatim>\<open>True\<close> when it leaves through
  \<^verbatim>\<open>continue REQUIRED\<close>.
\<close>

fun required_pattern :: "regexp \<Rightarrow> (string \<times> schema) list \<Rightarrow> string \<Rightarrow> panic + bool" where
  "required_pattern compile [] pn = Inr False"
| "required_pattern compile ((pp, _) # pprops) pn =
     (case compile pp of
        None \<Rightarrow> Inl (MustCompile pp)
      | Some re \<Rightarrow> if re pn then Inr True else required_pattern compile pprops pn)"

text \<open>The body of the loop over \<^verbatim>\<open>v.Required\<close>, for the definition \<open>v\<close> named \<open>d\<close>.\<close>

definition required_name :: "regexp \<Rightarrow> string \<Rightarrow> schema \<Rightarrow> string \<Rightarrow> panic + error list" where
  "required_name compile d v pn =
     (if pn \<in> fst ` set (Properties v) then Inr []
      else
        (case required_pattern compile (PatternProperties v) pn of
           Inl p \<Rightarrow> Inl p
         | Inr True \<Rightarrow> Inr []
         | Inr False \<Rightarrow>
             (case AdditionalProperties v of
                Some (allows, sch) \<Rightarrow>
                  if allows then Inr []
                  else if sch \<noteq> None then Inr []
                  else Inr [required_error pn d]
              | None \<Rightarrow> Inr [required_error pn d])))"

fun validateRequiredDefinitions_required ::
  "regexp \<Rightarrow> string \<Rightarrow> schema \<Rightarrow> string list \<Rightarrow> Result \<Rightarrow> panic + Result" where
  "validateRequiredDefinitions_required compile d v [] res = Inr res"
| "validateRequiredDefinitions_required compile d v (pn # required) res =
     (case required_name compile d v pn of
        Inl p \<Rightarrow> Inl p
      | Inr errs \<Rightarrow> validateRequiredDefinitions_required compile d v required (AddErrors res errs))"

fun validateRequiredDefinitions_range ::
  "regexp \<Rightarrow> (string \<times> schema) list \<Rightarrow> Result \<Rightarrow> panic + Result" where
  "validateRequiredDefinitions_range compile [] res = Inr res"
| "validateRequiredDefinitions_range compile ((d, v) # defs) res =
     (case validateRequiredDefinitions_required compile d v (Required v) res of
        Inl p \<Rightarrow> Inl p
      | Inr res' \<Rightarrow> validateRequiredDefinitions_range compile defs res')"

definition validateRequiredDefinitions :: "regexp \<Rightarrow> document \<Rightarrow> panic + Result" where
  "validateRequiredDefinitions compile doc =
     validateRequiredDefinitions_range compile (Definitions doc) new_Result"

section \<open>The driver\<close>

text \<open>
  What \<^verbatim>\<open>Validate\<close> receives from its collaborators, which are outside the files at
  hand: the error (its message) of \<^verbatim>\<open>json.Unmarshal(sd.Raw(), &obj)\<close>, the result of the
  meta-schema validator \<^verbatim>\<open>schv.Validate(obj)\<close>, the error of \<^verbatim>\<open>s.spec.Expanded()\<close>, and the
  outcomes of the two sample-value phases, which run the generic schema, parameter,
  header and items validators over the document.
\<close>

record collaborators =
  Unmarshal :: "string option"
  SchemaValidate :: Result
  Expanded :: "string option"
  DefaultValueValidAgainstSchema :: "panic + Result"
  ExamplesValidAgainstSchema :: "panic + Result"

definition validateReferencesValid :: "collaborators \<Rightarrow> Result" where
  "validateReferencesValid ext =
     (case Expanded ext of
        Some err \<Rightarrow> AddErrors new_Result [Failure err]
      | None \<Rightarrow> new_Result)"

text \<open>
  The seven structural phases in the order of the source; a panic of one of them ends
  the call, and so does a property walk that does not return.
\<close>

definition structural_phases ::
  "nat \<Rightarrow> resolver \<Rightarrow> pointer_get \<Rightarrow> regexp \<Rightarrow> collaborators \<Rightarrow> document \<Rightarrow> Result
     \<Rightarrow> (panic + Result) option" where
  "structural_phases fuel ResolveRef Get compile ext sd errs =
     (let errs = Merge errs (validateDuplicateOperationIDs (OperationIDs sd))
      in case validateDuplicatePropertyNames fuel ResolveRef (Definitions sd) of
           None \<Rightarrow> None
         | Some (Inl p) \<Rightarrow> Some (Inl p)
         | Some (Inr r) \<Rightarrow>
        (let errs = Merge errs r
         in case validateParameters Get sd of
              Inl p \<Rightarrow> Some (Inl p)
            | Inr r \<Rightarrow>
           (let errs = Merge errs r
            in case validateItems sd of
                 Inl p \<Rightarrow> Some (Inl p)
               | Inr r \<Rightarrow>
              (let errs = Merge errs r
               in case validateRequiredDefinitions compile sd of
                    Inl p \<Rightarrow> Some (Inl p)
                  | Inr r \<Rightarrow>
                 (let errs = Merge errs r
                  in case DefaultValueValidAgainstSchema ext of
                       Inl p \<Rightarrow> Some (Inl p)
                     | Inr r \<Rightarrow>
                    (let errs = Merge errs r
                     in case ExamplesValidAgainstSchema ext of
                          Inl p \<Rightarrow> Some (Inl p)
                        | Inr r \<Rightarrow> Some (Inr (Merge errs r))))))))"

text \<open>
  \<^verbatim>\<open>Validate\<close>. The argument is \<^verbatim>\<open>None\<close> when \<^verbatim>\<open>data\<close> is not a \<^verbatim>\<open>*spec.Document\<close>;
  the warnings are then the nil result. The three warning hooks of the source return
  nil, which leaves \<^verbatim>\<open>warnings\<close> as it was created.
\<close>

definition Validate ::
  "nat \<Rightarrow> resolver \<Rightarrow> pointer_get \<Rightarrow> regexp \<Rightarrow> collaborators \<Rightarrow> document option
     \<Rightarrow> (panic + Result \<times> Result option) option" where
  "Validate fuel ResolveRef Get compile ext data =
     (case data of
        None \<Rightarrow>
          Some (Inr (\<lparr>Errors =
            [New 500 ''spec validator can only validate spec.Document objects'' []]\<rparr>, None))
      | Some sd \<Rightarrow>
          (let errs = new_Result; warnings = new_Result
           in case Unmarshal ext of
                Some err \<Rightarrow> Some (Inr (AddErrors errs [Failure err], Some warnings))
              | None \<Rightarrow>
                  (let errs = Merge errs (SchemaValidate ext)
                   in if HasErrors errs then Some (Inr (errs, Some warnings))
                      else
                        (let errs = Merge errs (validateReferencesValid ext)
                         in if HasErrors errs then Some (Inr (errs, Some warnings))
                            else
                              (case structural_phases fuel ResolveRef Get compile ext sd errs of
                                 None \<Rightarrow> None
                               | Some (Inl p) \<Rightarrow> Some (Inl p)
                               | Some (Inr errs) \<Rightarrow> Some (Inr (errs, Some warnings)))))))"

section \<open>Properties of the duplicate-identifier check\<close>

lemma known_incr_keys:
  "map fst (known_incr known v)
     = (if v \<in> fst ` set known then map fst known else map fst known @ [v])"
  by (induction known v rule: known_incr.induct) auto

lemma known_incr_lookup:
  "map_of (known_incr known v) k =
     (if k = v then Some (case map_of known v of None \<Rightarrow> 1 | Some n \<Rightarrow> Suc n)
      else map_of known k)"
  by (induction known v rule: known_incr.induct) auto

lemma counting_loop:
  assumes "distinct (map fst known)"
    and "\<And>k. map_of known k
           = (if k \<noteq> [] \<and> 0 < count_list pre k then Some (count_list pre k) else None)"
  shows "distinct (map fst
            (foldl (\<lambda>known v. if v \<noteq> [] then known_incr known v else known) known ids))
       \<and> (\<forall>k. map_of (foldl (\<lambda>known v. if v \<noteq> [] then known_incr known v else known) known ids) k
            = (if k \<noteq> [] \<and> 0 < count_list (pre @ ids) k
               then Some (count_list (pre @ ids) k) else None))"
  using assms
proof (induction ids arbitrary: pre known)
  case Nil
  then show ?case by simp
next
  case (Cons v ids)
  let ?known = "if v \<noteq> [] then known_incr known v else known"
  have d: "distinct (map fst ?known)"
    using Cons.prems(1) by (simp add: known_incr_keys)
  have l: "map_of ?known k
      = (if k \<noteq> [] \<and> 0 < count_list (pre @ [v]) k then Some (count_list (pre @ [v]) k) else None)"
    for k
    using Cons.prems(2) by (auto simp: known_incr_lookup)
  from Cons.IH[OF d l] show ?case by simp
qed

lemma count_ids_distinct: "distinct (map fst (count_ids ids))"
  using counting_loop[of "[]" "[]" ids] by (simp add: count_ids_def)

lemma count_ids_member:
  "(k, v) \<in> set (count_ids ids) \<longleftrightarrow> k \<noteq> [] \<and> 0 < count_list ids k \<and> v = count_list ids k"
proof -
  have "(k, v) \<in> set (count_ids ids) \<longleftrightarrow> map_of (count_ids ids) k = Some v"
    using count_ids_distinct by simp
  also have "\<dots> \<longleftrightarrow> k \<noteq> [] \<and> 0 < count_list ids k \<and> v = count_list ids k"
    using counting_loop[of "[]" "[]" ids] by (auto simp: count_ids_def)
  finally show ?thesis .
qed

lemma report_loop:
  "Errors (foldl (\<lambda>res (k, v). if v > 1 then AddErrors res [duplicate_id_error k v] else res)
             res known)
   = Errors res @ map (\<lambda>(k, v). duplicate_id_error k v) (filter (\<lambda>(k, v). v > 1) known)"
  by (induction known arbitrary: res) (auto simp: AddErrors_def)

lemma duplicate_ids_errors:
  "Errors (validateDuplicateOperationIDs ids)
   = map (\<lambda>(k, v). duplicate_id_error k v) (filter (\<lambda>(k, v). v > 1) (count_ids ids))"
  unfolding validateDuplicateOperationIDs_def report_loop new_Result_def by simp

text \<open>
  Claim C9. The diagnostics of \<^verbatim>\<open>validateDuplicateOperationIDs\<close> are exactly the errors
  \<^verbatim>\<open>"%q is defined %d times"\<close> for the non-empty identifiers \<open>k\<close> that occur more than
  once in the sequence of operation identifiers, with their number of occurrences, each
  reported once. The empty identifier and identifiers that occur once are in no
  diagnostic.
\<close>

theorem duplicate_operation_ids_exact:
  "set (Errors (validateDuplicateOperationIDs ids))
     = {duplicate_id_error k (count_list ids k) | k. k \<noteq> '''' \<and> 1 < count_list ids k}
   \<and> distinct (Errors (validateDuplicateOperationIDs ids))"
proof -
  let ?known = "count_ids ids"
  have s: "set (Errors (validateDuplicateOperationIDs ids))
     = {duplicate_id_error k (count_list ids k) | k. k \<noteq> '''' \<and> 1 < count_list ids k}"
    unfolding duplicate_ids_errors by (auto simp: count_ids_member image_iff)
  have inj: "inj_on (\<lambda>(k, v). duplicate_id_error k v) (set (filter (\<lambda>(k, v). v > 1) ?known))"
    by (auto simp: inj_on_def duplicate_id_error_def)
  have "distinct ?known"
    using count_ids_distinct by (rule distinct_map[THEN iffD1, THEN conjunct1])
  then have "distinct (Errors (validateDuplicateOperationIDs ids))"
    unfolding duplicate_ids_errors using inj by (simp add: distinct_map)
  with s show ?thesis by simp
qed

section \<open>Properties of the ancestry walk\<close>

text \<open>
  The first reference on the \<^verbatim>\<open>allOf\<close> spine of a schema, in the order of the walk: the
  schema's own reference, or else the first one found below its \<^verbatim>\<open>allOf\<close> members, from
  left to right.
\<close>

fun firstRef :: "schema \<Rightarrow> string option"
  and firstRef_allOf :: "schema list \<Rightarrow> string option" where
  "firstRef (Schema ref ty allOf props pprops addl its req) =
     (case ref of Some r \<Rightarrow> Some r | None \<Rightarrow> firstRef_allOf allOf)"
| "firstRef_allOf [] = None"
| "firstRef_allOf (chld # rest) =
     (case firstRef chld of Some r \<Rightarrow> Some r | None \<Rightarrow> firstRef_allOf rest)"

definition ancestry_outcome ::
  "resolver \<Rightarrow> string option \<Rightarrow> names \<Rightarrow> panic + (string list \<times> names)" where
  "ancestry_outcome ResolveRef first knowns =
     (case first of
        None \<Rightarrow> Inr ([], knowns)
      | Some r \<Rightarrow>
          (case ResolveRef r of
             Inl err \<Rightarrow> Inl (Panic (Failure err))
           | Inr reso \<Rightarrow> Inr ([r], insert r knowns)))"

lemma firstRef_unfold:
  "firstRef s = (case Ref s of Some r \<Rightarrow> Some r | None \<Rightarrow> firstRef_allOf (AllOf s))"
  by (cases s) (simp split: option.splits)

lemma ancestry_walk:
  "nm \<notin> knowns \<Longrightarrow>
     validateCircularAncestry ResolveRef nm sch knowns
       = ancestry_outcome ResolveRef (firstRef sch) knowns"
  "nm \<notin> knowns \<Longrightarrow>
     validateCircularAncestry_allOf ResolveRef nm chlds [] knowns
       = ancestry_outcome ResolveRef (firstRef_allOf chlds) knowns"
proof (induction ResolveRef nm sch knowns and ResolveRef nm chlds "[] :: string list" knowns
    rule: validateCircularAncestry_validateCircularAncestry_allOf.induct)
  case (1 ResolveRef nm sch knowns)
  show ?case
  proof (cases "Ref sch")
    case None
    with 1 show ?thesis
      by (simp add: validateCircularAncestry.simps(1) resolveSchema_def firstRef_unfold)
  next
    case (Some r)
    then show ?thesis
      by (simp add: validateCircularAncestry.simps(1) resolveSchema_def firstRef_unfold
          ancestry_outcome_def split: sum.splits)
  qed
next
  case (2 ResolveRef schn knowns)
  then show ?case by (simp add: ancestry_outcome_def)
next
  case (3 ResolveRef schn chld rest knowns)
  show ?case
  proof (cases "firstRef chld")
    case None
    with 3 show ?thesis by (simp add: ancestry_outcome_def)
  next
    case (Some r)
    with 3 show ?thesis by (auto simp: ancestry_outcome_def split: sum.splits)
  qed
qed

lemma definition_pointer_fresh: "k \<notin> {''#/definitions/'' @ k}"
proof
  assume "k \<in> {''#/definitions/'' @ k}"
  then have "length k = length (''#/definitions/'' @ k)" by simp
  then show False by simp
qed

lemma ancestry_of_definition:
  "validateCircularAncestry ResolveRef k sch {''#/definitions/'' @ k}
     = ancestry_outcome ResolveRef (firstRef sch) {''#/definitions/'' @ k}"
  by (rule ancestry_walk(1)) (rule definition_pointer_fresh)

section \<open>Properties of the property-name walk\<close>

lemmas walk_Suc = validateSchemaPropertyNames.simps(2)

declare validateSchemaPropertyNames.simps(2) [simp del]

lemma walk_node_from_body:
  assumes "\<And>schn schc. resolveSchema ResolveRef nm sch = Inr (schn, schc) \<Longrightarrow>
             \<exists>out. validateSchemaPropertyNames_allOf fuel ResolveRef schn (AllOf schc) [] knowns
                     = Some out"
  shows "\<exists>out. validateSchemaPropertyNames (Suc fuel) ResolveRef nm sch knowns = Some out"
proof (cases "resolveSchema ResolveRef nm sch")
  case (Inl p)
  then show ?thesis by (simp add: walk_Suc)
next
  case (Inr b)
  obtain schn schc where b: "b = (schn, schc)" by (cases b)
  from assms[OF Inr[unfolded b]] Inr b show ?thesis
    by (auto simp: walk_Suc)
qed

text \<open>
  The references met below the \<^verbatim>\<open>allOf\<close> members of a schema without crossing one, and
  the reference graph of a resolver: an edge leads to a pointer from every reference that
  the walk of its referent meets.
\<close>

fun spineRefs :: "schema \<Rightarrow> string set"
  and spineRefs_allOf :: "schema list \<Rightarrow> string set" where
  "spineRefs (Schema ref ty allOf props pprops addl its req) = spineRefs_allOf allOf"
| "spineRefs_allOf [] = {}"
| "spineRefs_allOf (chld # rest) =
     (case Ref chld of Some r \<Rightarrow> {r} | None \<Rightarrow> spineRefs chld) \<union> spineRefs_allOf rest"

definition refGraph :: "resolver \<Rightarrow> (string \<times> string) set" where
  "refGraph ResolveRef = {(q, p). \<exists>reso. ResolveRef p = Inr reso \<and> q \<in> spineRefs reso}"

definition bodyEnds :: "resolver \<Rightarrow> nat \<Rightarrow> schema list \<Rightarrow> bool" where
  "bodyEnds ResolveRef N chlds \<longleftrightarrow>
     (\<forall>fuel\<ge>N. \<forall>schn dups knowns.
        \<exists>out. validateSchemaPropertyNames_allOf fuel ResolveRef schn chlds dups knowns = Some out)"

definition pointerEnds :: "resolver \<Rightarrow> string \<Rightarrow> bool" where
  "pointerEnds ResolveRef q \<longleftrightarrow>
     (\<forall>reso. ResolveRef q = Inr reso \<longrightarrow> (\<exists>N. bodyEnds ResolveRef N (AllOf reso)))"

lemma spineRefs_unfold: "spineRefs s = spineRefs_allOf (AllOf s)"
  by (cases s) simp

lemma node_ends:
  assumes ref: "\<And>q. Ref chld = Some q \<Longrightarrow> pointerEnds ResolveRef q"
    and inl: "Ref chld = None \<Longrightarrow> \<exists>N. bodyEnds ResolveRef N (AllOf chld)"
  shows "\<exists>N. \<forall>fuel\<ge>N. \<forall>nm knowns.
            \<exists>out. validateSchemaPropertyNames fuel ResolveRef nm chld knowns = Some out"
proof -
  have "\<exists>N. \<forall>schn schc nm. resolveSchema ResolveRef nm chld = Inr (schn, schc) \<longrightarrow>
             bodyEnds ResolveRef N (AllOf schc)"
  proof (cases "Ref chld")
    case None
    from inl[OF None] obtain N where "bodyEnds ResolveRef N (AllOf chld)" ..
    with None show ?thesis by (auto simp: resolveSchema_def)
  next
    case (Some q)
    show ?thesis
    proof (cases "ResolveRef q")
      case (Inl e)
      with Some show ?thesis by (simp add: resolveSchema_def)
    next
      case (Inr reso)
      with ref[OF Some] obtain N where "bodyEnds ResolveRef N (AllOf reso)"
        by (auto simp: pointerEnds_def)
      with Some Inr show ?thesis by (auto simp: resolveSchema_def)
    qed
  qed
  then obtain N where N: "\<And>schn schc nm. resolveSchema ResolveRef nm chld = Inr (schn, schc) \<Longrightarrow>
             bodyEnds ResolveRef N (AllOf schc)" by blast
  have "\<exists>out. validateSchemaPropertyNames fuel ResolveRef nm chld knowns = Some out"
    if "fuel \<ge> Suc N" for fuel nm knowns
  proof -
    from that obtain f where f: "fuel = Suc f" "f \<ge> N" by (cases fuel) auto
    show ?thesis unfolding f(1)
      by (rule walk_node_from_body) (use N f(2) in \<open>auto simp: bodyEnds_def\<close>)
  qed
  then show ?thesis by blast
qed

lemma spine_ends:
  "(\<forall>q\<in>spineRefs s. pointerEnds ResolveRef q) \<Longrightarrow> \<exists>N. bodyEnds ResolveRef N (AllOf s)"
  "(\<forall>q\<in>spineRefs_allOf chlds. pointerEnds ResolveRef q) \<Longrightarrow> \<exists>N. bodyEnds ResolveRef N chlds"
proof (induction s and chlds rule: spineRefs_spineRefs_allOf.induct)
  case (1 ref ty allOf props pprops addl its req)
  then show ?case by simp
next
  case 2
  show ?case by (simp add: bodyEnds_def)
next
  case (3 chld rest)
  have "\<exists>N. \<forall>fuel\<ge>N. \<forall>nm knowns.
            \<exists>out. validateSchemaPropertyNames fuel ResolveRef nm chld knowns = Some out"
  proof (rule node_ends)
    fix q assume "Ref chld = Some q"
    with "3.prems" show "pointerEnds ResolveRef q" by simp
  next
    assume n: "Ref chld = None"
    with "3.prems" have "\<forall>q\<in>spineRefs chld. pointerEnds ResolveRef q" by simp
    from "3.IH"(1)[OF n this] show "\<exists>N. bodyEnds ResolveRef N (AllOf chld)" .
  qed
  then obtain N1 where N1: "\<And>fuel nm knowns. fuel \<ge> N1 \<Longrightarrow>
       \<exists>out. validateSchemaPropertyNames fuel ResolveRef nm chld knowns = Some out" by blast
  from "3.prems" have "\<forall>q\<in>spineRefs_allOf rest. pointerEnds ResolveRef q" by simp
  from "3.IH"(2)[OF this] obtain N2 where N2: "bodyEnds ResolveRef N2 rest" ..
  have "bodyEnds ResolveRef (max N1 N2) (chld # rest)"
    unfolding bodyEnds_def
  proof (intro allI impI)
    fix fuel schn dups knowns
    assume le: "max N1 N2 \<le> fuel"
    then obtain o1 where
      o1: "validateSchemaPropertyNames fuel ResolveRef schn chld knowns = Some o1"
      using N1[of fuel schn knowns] by auto
    show "\<exists>out. validateSchemaPropertyNames_allOf fuel ResolveRef schn (chld # rest) dups knowns
            = Some out"
    proof (cases o1)
      case (Inl p)
      with o1 show ?thesis by simp
    next
      case (Inr b)
      obtain found knowns' where b: "b = (found, knowns')" by (cases b)
      from N2 le obtain out where
        "validateSchemaPropertyNames_allOf fuel ResolveRef schn rest (dups @ found) knowns'
           = Some out"
        unfolding bodyEnds_def by (meson max.boundedE)
      with o1 Inr b show ?thesis by simp
    qed
  qed
  then show ?case ..
qed

lemma pointer_ends:
  assumes "wf (refGraph ResolveRef)"
  shows "pointerEnds ResolveRef p"
  using assms
proof (induction p rule: wf_induct_rule)
  case (less p)
  show ?case unfolding pointerEnds_def
  proof (intro allI impI)
    fix reso assume r: "ResolveRef p = Inr reso"
    have "\<forall>q\<in>spineRefs reso. pointerEnds ResolveRef q"
    proof
      fix q assume "q \<in> spineRefs reso"
      with r have "(q, p) \<in> refGraph ResolveRef" by (auto simp: refGraph_def)
      then show "pointerEnds ResolveRef q" by (rule less)
    qed
    then show "\<exists>N. bodyEnds ResolveRef N (AllOf reso)" by (rule spine_ends(1))
  qed
qed

lemma acyclic_walk_ends:
  assumes "wf (refGraph ResolveRef)"
  shows "\<exists>fuel out. validateSchemaPropertyNames fuel ResolveRef nm sch knowns = Some out"
proof -
  have "\<exists>N. \<forall>fuel\<ge>N. \<forall>nm knowns.
            \<exists>out. validateSchemaPropertyNames fuel ResolveRef nm sch knowns = Some out"
  proof (rule node_ends)
    fix q show "pointerEnds ResolveRef q" by (rule pointer_ends[OF assms])
  next
    have "\<forall>q\<in>spineRefs sch. pointerEnds ResolveRef q" by (simp add: pointer_ends[OF assms])
    then show "\<exists>N. bodyEnds ResolveRef N (AllOf sch)" by (rule spine_ends(1))
  qed
  then show ?thesis by blast
qed

text \<open>A schema with no reference on its spine: the walk resolves nothing.\<close>

lemma no_firstRef_no_spineRefs:
  "firstRef s = None \<Longrightarrow> spineRefs s = {}"
  "firstRef_allOf chlds = None \<Longrightarrow> spineRefs_allOf chlds = {}"
proof (induction s and chlds rule: firstRef_firstRef_allOf.induct)
  case (1 ref ty allOf props pprops addl its req)
  then show ?case by (simp split: option.splits)
next
  case 2
  show ?case by simp
next
  case (3 chld rest)
  from "3.prems" have c: "firstRef chld = None" and r: "firstRef_allOf rest = None"
    by (simp_all split: option.splits)
  from c have "Ref chld = None" by (simp add: firstRef_unfold split: option.splits)
  with "3.IH"(1)[OF c] "3.IH"(2)[OF c r] show ?case by simp
qed

lemma ref_free_no_panic:
  "firstRef sch = None \<Longrightarrow>
     validateSchemaPropertyNames fuel ResolveRef nm sch knowns \<noteq> Some (Inl p)"
  "firstRef_allOf chlds = None \<Longrightarrow>
     validateSchemaPropertyNames_allOf fuel ResolveRef nm chlds dups knowns \<noteq> Some (Inl p)"
proof (induction fuel ResolveRef nm sch knowns and fuel ResolveRef nm chlds dups knowns
    rule: validateSchemaPropertyNames_validateSchemaPropertyNames_allOf.induct)
  case (1 ResolveRef nm sch knowns)
  show ?case by simp
next
  case (2 fuel ResolveRef nm sch knowns)
  from "2.prems" have r: "Ref sch = None" and a: "firstRef_allOf (AllOf sch) = None"
    by (simp_all add: firstRef_unfold split: option.splits)
  from r have rs: "resolveSchema ResolveRef nm sch = Inr (nm, sch)"
    by (simp add: resolveSchema_def)
  show ?case
  proof (cases "length (AllOf sch) > 0")
    case True
    from "2.IH"[OF rs refl True a] True rs show ?thesis by (simp add: walk_Suc)
  next
    case False
    with rs show ?thesis by (simp add: walk_Suc)
  qed
next
  case (3 fuel ResolveRef schn dups knowns)
  show ?case by simp
next
  case (4 fuel ResolveRef schn chld rest dups knowns)
  from "4.prems" have c: "firstRef chld = None" and r: "firstRef_allOf rest = None"
    by (simp_all split: option.splits)
  show ?case
  proof (cases "validateSchemaPropertyNames fuel ResolveRef schn chld knowns")
    case None
    then show ?thesis by simp
  next
    case (Some o1)
    show ?thesis
    proof (cases o1)
      case (Inl q)
      with Some "4.IH"(1)[OF c] show ?thesis by simp
    next
      case (Inr b)
      obtain found knowns' where b: "b = (found, knowns')" by (cases b)
      from "4.IH"(2)[OF Some Inr b[symmetric] r] Some Inr b show ?thesis by simp
    qed
  qed
qed

lemma ref_free_walk_ends:
  assumes "firstRef sch = None"
  shows "\<exists>N. \<forall>fuel\<ge>N. \<forall>nm knowns.
            \<exists>found knowns'. validateSchemaPropertyNames fuel ResolveRef nm sch knowns
                = Some (Inr (found, knowns'))"
proof -
  from assms have r: "Ref sch = None" by (simp add: firstRef_unfold split: option.splits)
  have "\<exists>N. \<forall>fuel\<ge>N. \<forall>nm knowns.
            \<exists>out. validateSchemaPropertyNames fuel ResolveRef nm sch knowns = Some out"
  proof (rule node_ends)
    fix q assume "Ref sch = Some q"
    with r show "pointerEnds ResolveRef q" by simp
  next
    from no_firstRef_no_spineRefs(1)[OF assms]
    have "\<forall>q\<in>spineRefs sch. pointerEnds ResolveRef q" by simp
    then show "\<exists>N. bodyEnds ResolveRef N (AllOf sch)" by (rule spine_ends(1))
  qed
  then obtain N where N: "\<And>fuel nm knowns. fuel \<ge> N \<Longrightarrow>
      \<exists>out. validateSchemaPropertyNames fuel ResolveRef nm sch knowns = Some out" by blast
  have "\<exists>found knowns'. validateSchemaPropertyNames fuel ResolveRef nm sch knowns
                = Some (Inr (found, knowns'))" if "fuel \<ge> N" for fuel nm knowns
  proof -
    from N[OF that] obtain out where
      out: "validateSchemaPropertyNames fuel ResolveRef nm sch knowns = Some out" by blast
    with ref_free_no_panic(1)[OF assms, of fuel ResolveRef nm knowns] show ?thesis
      by (cases out) auto
  qed
  then show ?thesis by blast
qed

section \<open>Properties of the duplicate-property check\<close>

lemma range_skip:
  "length (AllOf sch) = 0 \<Longrightarrow>
     validateDuplicatePropertyNames_range fuel ResolveRef ((k, sch) # defs) res
       = validateDuplicatePropertyNames_range fuel ResolveRef defs res"
  by simp

lemma range_circular:
  assumes "length (AllOf sch) > 0" and "firstRef sch = Some r" and "ResolveRef r = Inr reso"
  shows "validateDuplicatePropertyNames_range fuel ResolveRef ((k, sch) # defs) res
           = Some (Inr (AddErrors res [circular_ancestry_error k [r]]))"
  using assms by (simp add: ancestry_of_definition[simplified] ancestry_outcome_def)

lemma range_panic:
  assumes "length (AllOf sch) > 0" and "firstRef sch = Some r" and "ResolveRef r = Inl err"
  shows "validateDuplicatePropertyNames_range fuel ResolveRef ((k, sch) # defs) res
           = Some (Inl (Panic (Failure err)))"
  using assms by (simp add: ancestry_of_definition[simplified] ancestry_outcome_def)

lemma range_walk:
  assumes "length (AllOf sch) > 0" and "firstRef sch = None"
    and "validateSchemaPropertyNames fuel ResolveRef k sch {} = Some (Inr (dups, knowns'))"
  shows "validateDuplicatePropertyNames_range fuel ResolveRef ((k, sch) # defs) res
           = validateDuplicatePropertyNames_range fuel ResolveRef defs
               (if length dups > 0 then AddErrors res [duplicate_properties_error k dups]
                else res)"
  using assms by (simp add: ancestry_of_definition[simplified] ancestry_outcome_def)

lemma range_ends:
  "\<exists>N. \<forall>fuel\<ge>N. \<forall>res.
     \<exists>out. validateDuplicatePropertyNames_range fuel ResolveRef defs res = Some out"
proof (induction defs)
  case Nil
  show ?case by simp
next
  case (Cons d defs)
  obtain k sch where d: "d = (k, sch)" by (cases d)
  from Cons.IH obtain N2 where N2: "\<And>fuel res. fuel \<ge> N2 \<Longrightarrow>
      \<exists>out. validateDuplicatePropertyNames_range fuel ResolveRef defs res = Some out" by blast
  show ?case
  proof (cases "length (AllOf sch) > 0")
    case False
    with N2 d show ?thesis by auto
  next
    case True
    show ?thesis
    proof (cases "firstRef sch")
      case (Some r)
      show ?thesis
      proof (cases "ResolveRef r")
        case (Inl err)
        from range_panic[where ResolveRef=ResolveRef, OF True Some Inl] d show ?thesis by blast
      next
        case (Inr reso)
        from range_circular[where ResolveRef=ResolveRef, OF True Some Inr] d show ?thesis by blast
      qed
    next
      case None
      from ref_free_walk_ends[OF None, of ResolveRef] obtain N1 where
        N1: "\<And>fuel nm knowns. fuel \<ge> N1 \<Longrightarrow>
          \<exists>found knowns'. validateSchemaPropertyNames fuel ResolveRef nm sch knowns
             = Some (Inr (found, knowns'))" by blast
      have "\<exists>out. validateDuplicatePropertyNames_range fuel ResolveRef (d # defs) res = Some out"
        if "fuel \<ge> max N1 N2" for fuel res
      proof -
        from that have f1: "fuel \<ge> N1" and f2: "fuel \<ge> N2" by simp_all
        from N1[OF f1, of k "{}"] obtain dups knowns' where
          w: "validateSchemaPropertyNames fuel ResolveRef k sch {} = Some (Inr (dups, knowns'))"
          by blast
        show ?thesis unfolding d range_walk[OF True None w] by (rule N2[OF f2])
      qed
      then show ?thesis by blast
    qed
  qed
qed

text \<open>
  A chain of definitions without a cycle: \<open>Dog\<close> extends \<open>Animal\<close>, \<open>Animal\<close> extends
  \<open>Being\<close>, each through \<^verbatim>\<open>allOf\<close> and \<^verbatim>\<open>$ref\<close>, with the resolver of that document.
\<close>

definition ex_string :: schema where
  "ex_string = Schema None [''string''] [] [] [] None None []"

definition ex_ref :: "string \<Rightarrow> schema" where
  "ex_ref r = Schema (Some r) [] [] [] [] None None []"

definition ex_object :: "(string \<times> schema) list \<Rightarrow> schema" where
  "ex_object props = Schema None [''object''] [] props [] None None []"

definition ex_allOf :: "schema list \<Rightarrow> schema" where
  "ex_allOf chlds = Schema None [] chlds [] [] None None []"

definition ex_Being :: schema where
  "ex_Being = ex_object [(''id'', ex_string)]"

definition ex_Animal :: schema where
  "ex_Animal = ex_allOf [ex_ref ''#/definitions/Being'', ex_object [(''name'', ex_string)]]"

definition ex_Dog :: schema where
  "ex_Dog = ex_allOf [ex_ref ''#/definitions/Animal'', ex_object [(''bark'', ex_string)]]"

definition ex_ResolveRef :: resolver where
  "ex_ResolveRef r =
     (if r = ''#/definitions/Being'' then Inr ex_Being
      else if r = ''#/definitions/Animal'' then Inr ex_Animal
      else if r = ''#/definitions/Dog'' then Inr ex_Dog
      else Inl ''object has no key'')"

lemmas ex_schema_defs =
  ex_string_def ex_ref_def ex_object_def ex_allOf_def ex_Being_def ex_Animal_def ex_Dog_def

definition ex_rank :: "string \<Rightarrow> nat" where
  "ex_rank p =
     (if p = ''#/definitions/Dog'' then 2 else if p = ''#/definitions/Animal'' then 1 else 0)"

lemma ex_spineRefs:
  "spineRefs ex_Being = {}"
  "spineRefs ex_Animal = {''#/definitions/Being''}"
  "spineRefs ex_Dog = {''#/definitions/Animal''}"
  by (simp_all add: ex_schema_defs)

lemma ex_refGraph_wf: "wf (refGraph ex_ResolveRef)"
proof (rule wf_subset[OF wf_measure[of ex_rank]], rule subsetI)
  fix e assume e: "e \<in> refGraph ex_ResolveRef"
  obtain q p where qp: "e = (q, p)" by (cases e)
  from e qp obtain reso where r: "ex_ResolveRef p = Inr reso" and q: "q \<in> spineRefs reso"
    by (auto simp: refGraph_def)
  consider "p = ''#/definitions/Being''" "reso = ex_Being"
    | "p = ''#/definitions/Animal''" "reso = ex_Animal"
    | "p = ''#/definitions/Dog''" "reso = ex_Dog"
    using r unfolding ex_ResolveRef_def by (auto split: if_splits)
  then have "ex_rank q < ex_rank p"
  proof cases
    case 1
    with q show ?thesis by (simp add: ex_spineRefs)
  next
    case 2
    with q show ?thesis by (simp add: ex_spineRefs ex_rank_def)
  next
    case 3
    with q show ?thesis by (simp add: ex_spineRefs ex_rank_def)
  qed
  with qp show "e \<in> measure ex_rank" by simp
qed

text \<open>
  Claim C1. The claim fails on the source. In the chain above no pointer is ever met
  twice and the reference graph is well-founded, yet the check reports circular ancestry
  for \<open>Animal\<close>, naming the pointer of \<open>Being\<close>, which was not in the visited set: the
  source stores a pointer in \<^verbatim>\<open>knowns\<close> before it asks whether \<^verbatim>\<open>knowns\<close> holds it, so
  the first reference on any spine is reported.
\<close>

theorem acyclic_chain_reported_circular:
  "wf (refGraph ex_ResolveRef)
   \<and> ''#/definitions/Being'' \<notin> {''#/definitions/Animal''}
   \<and> validateCircularAncestry ex_ResolveRef ''Animal'' ex_Animal {''#/definitions/Animal''}
       = Inr ([''#/definitions/Being''], {''#/definitions/Being'', ''#/definitions/Animal''})
   \<and> validateDuplicatePropertyNames fuel ex_ResolveRef
         [(''Being'', ex_Being), (''Animal'', ex_Animal), (''Dog'', ex_Dog)]
       = Some (Inr \<lparr>Errors =
           [circular_ancestry_error ''Animal'' [''#/definitions/Being'']]\<rparr>)"
proof -
  have f: "firstRef ex_Animal = Some ''#/definitions/Being''"
    by (simp add: ex_schema_defs)
  have r: "ex_ResolveRef ''#/definitions/Being'' = Inr ex_Being"
    by (simp add: ex_ResolveRef_def)
  have a: "validateCircularAncestry ex_ResolveRef ''Animal'' ex_Animal {''#/definitions/Animal''}
       = Inr ([''#/definitions/Being''], {''#/definitions/Being'', ''#/definitions/Animal''})"
    using ancestry_of_definition[of ex_ResolveRef "''Animal''" ex_Animal]
    by (simp add: ancestry_outcome_def f r)
  have l: "length (AllOf ex_Animal) > 0" by (simp add: ex_schema_defs)
  have s: "length (AllOf ex_Being) = 0" by (simp add: ex_schema_defs)
  have "validateDuplicatePropertyNames fuel ex_ResolveRef
         [(''Being'', ex_Being), (''Animal'', ex_Animal), (''Dog'', ex_Dog)]
       = Some (Inr \<lparr>Errors =
           [circular_ancestry_error ''Animal'' [''#/definitions/Being'']]\<rparr>)"
    unfolding validateDuplicatePropertyNames_def range_skip[OF s]
      range_circular[of ex_Animal "''#/definitions/Being''" ex_ResolveRef ex_Being, OF l f r]
    by (simp add: new_Result_def AddErrors_def)
  with a ex_refGraph_wf show ?thesis by simp
qed

lemma any_resolved_reference_reported:
  assumes "Ref sch = Some r" and "ResolveRef r = Inr reso"
  shows "validateCircularAncestry ResolveRef nm sch knowns = Inr ([r], insert r knowns)"
  using assms by (simp add: validateCircularAncestry.simps(1) resolveSchema_def)

text \<open>
  Claim C2, as the source has it. When the reference of the schema handed to either walker
  fails to resolve, the walker panics with the resolver's error; and when the first
  reference on the spine of a definition with \<^verbatim>\<open>allOf\<close> fails to resolve,
  \<^verbatim>\<open>validateDuplicatePropertyNames\<close> panics with that error: no diagnostic is added, no
  result is returned, and the definitions that follow are not visited.
\<close>

theorem unresolved_reference_panics:
  assumes "ResolveRef r = Inl err"
  shows "(Ref sch = Some r \<longrightarrow>
            validateCircularAncestry ResolveRef nm sch knowns = Inl (Panic (Failure err))
          \<and> validateSchemaPropertyNames (Suc fuel) ResolveRef nm sch knowns
              = Some (Inl (Panic (Failure err))))
       \<and> (length (AllOf sch) > 0 \<and> firstRef sch = Some r \<longrightarrow>
            validateDuplicatePropertyNames_range fuel ResolveRef ((k, sch) # defs) res
              = Some (Inl (Panic (Failure err))))"
proof (intro conjI impI)
  assume "Ref sch = Some r"
  with assms show "validateCircularAncestry ResolveRef nm sch knowns = Inl (Panic (Failure err))"
    by (simp add: validateCircularAncestry.simps(1) resolveSchema_def)
next
  assume "Ref sch = Some r"
  with assms show "validateSchemaPropertyNames (Suc fuel) ResolveRef nm sch knowns
      = Some (Inl (Panic (Failure err)))"
    by (simp add: walk_Suc resolveSchema_def)
next
  assume "length (AllOf sch) > 0 \<and> firstRef sch = Some r"
  then show "validateDuplicatePropertyNames_range fuel ResolveRef ((k, sch) # defs) res
      = Some (Inl (Panic (Failure err)))"
    using range_panic[of sch r ResolveRef err] assms by blast
qed

definition ex_no_ResolveRef :: resolver where
  "ex_no_ResolveRef r = Inl ''object has no key''"

theorem unresolved_reference_panics_witness:
  "ex_no_ResolveRef ''#/definitions/Animal'' = Inl ''object has no key''
   \<and> Ref (ex_ref ''#/definitions/Animal'') = Some ''#/definitions/Animal''
   \<and> length (AllOf ex_Dog) > 0 \<and> firstRef ex_Dog = Some ''#/definitions/Animal''
   \<and> validateCircularAncestry ex_no_ResolveRef ''Dog'' (ex_ref ''#/definitions/Animal'')
         {''#/definitions/Dog''}
       = Inl (Panic (Failure ''object has no key''))
   \<and> validateSchemaPropertyNames (Suc 0) ex_no_ResolveRef ''Dog''
         (ex_ref ''#/definitions/Animal'') {}
       = Some (Inl (Panic (Failure ''object has no key'')))
   \<and> validateDuplicatePropertyNames_range 1 ex_no_ResolveRef
         [(''Dog'', ex_Dog), (''Being'', ex_Being)] new_Result
       = Some (Inl (Panic (Failure ''object has no key'')))"
proof -
  have h: "ex_no_ResolveRef ''#/definitions/Animal'' = Inl ''object has no key''"
    by (simp add: ex_no_ResolveRef_def)
  have r: "Ref (ex_ref ''#/definitions/Animal'') = Some ''#/definitions/Animal''"
    by (simp add: ex_ref_def)
  have d: "length (AllOf ex_Dog) > 0 \<and> firstRef ex_Dog = Some ''#/definitions/Animal''"
    by (simp add: ex_schema_defs)
  note t = unresolved_reference_panics[of ex_no_ResolveRef "''#/definitions/Animal''"
      "''object has no key''", OF h]
  from t[THEN conjunct1, THEN mp, OF r] t[THEN conjunct2, THEN mp, OF d] h r d
  show ?thesis by simp
qed

text \<open>
  Claim C2 as stated fails: with a resolver that cannot resolve the reference of \<open>Dog\<close>,
  the check returns no result at all, whatever the bound on the depth.
\<close>

theorem unresolved_reference_no_result:
  "\<forall>fuel. validateDuplicatePropertyNames fuel ex_no_ResolveRef
             [(''Dog'', ex_Dog), (''Being'', ex_Being)]
           = Some (Inl (Panic (Failure ''object has no key'')))
         \<and> (\<nexists>res. validateDuplicatePropertyNames fuel ex_no_ResolveRef
                     [(''Dog'', ex_Dog), (''Being'', ex_Being)] = Some (Inr res))"
proof
  fix fuel
  have d: "length (AllOf ex_Dog) > 0" and f: "firstRef ex_Dog = Some ''#/definitions/Animal''"
    by (simp_all add: ex_schema_defs)
  have h: "ex_no_ResolveRef ''#/definitions/Animal'' = Inl ''object has no key''"
    by (simp add: ex_no_ResolveRef_def)
  show "validateDuplicatePropertyNames fuel ex_no_ResolveRef
             [(''Dog'', ex_Dog), (''Being'', ex_Being)]
           = Some (Inl (Panic (Failure ''object has no key'')))
         \<and> (\<nexists>res. validateDuplicatePropertyNames fuel ex_no_ResolveRef
                     [(''Dog'', ex_Dog), (''Being'', ex_Being)] = Some (Inr res))"
    unfolding validateDuplicatePropertyNames_def
      range_panic[of ex_Dog "''#/definitions/Animal''" ex_no_ResolveRef "''object has no key''",
        OF d f h]
    by simp
qed

text \<open>A definition that reaches itself: the referent of \<open>#/definitions/A\<close> extends it.\<close>

definition ex_cyclic :: schema where
  "ex_cyclic = ex_allOf [ex_ref ''#/definitions/A'']"

definition ex_cyclic_ResolveRef :: resolver where
  "ex_cyclic_ResolveRef r = Inr ex_cyclic"

lemma cyclic_walk_never_returns:
  "validateSchemaPropertyNames fuel ex_cyclic_ResolveRef nm (ex_ref ''#/definitions/A'') knowns
     = None"
proof (induction fuel arbitrary: nm knowns)
  case 0
  show ?case by simp
next
  case (Suc fuel)
  have r: "resolveSchema ex_cyclic_ResolveRef nm (ex_ref ''#/definitions/A'')
             = Inr (''#/definitions/A'', ex_cyclic)"
    by (simp add: resolveSchema_def ex_ref_def ex_cyclic_ResolveRef_def)
  have a: "AllOf ex_cyclic = [ex_ref ''#/definitions/A'']"
    by (simp add: ex_cyclic_def ex_allOf_def)
  show ?case
    unfolding walk_Suc r by (simp add: a Suc)
qed

lemma cyclic_definition_never_returns:
  "validateSchemaPropertyNames fuel ex_cyclic_ResolveRef ''A'' ex_cyclic {} = None"
proof (cases fuel)
  case 0
  then show ?thesis by simp
next
  case (Suc f)
  have r: "resolveSchema ex_cyclic_ResolveRef ''A'' ex_cyclic = Inr (''A'', ex_cyclic)"
    by (simp add: resolveSchema_def ex_cyclic_def ex_allOf_def)
  have a: "AllOf ex_cyclic = [ex_ref ''#/definitions/A'']"
    by (simp add: ex_cyclic_def ex_allOf_def)
  show ?thesis
    unfolding Suc walk_Suc r by (simp add: a cyclic_walk_never_returns)
qed

lemma cyclic_refGraph: "(''#/definitions/A'', ''#/definitions/A'') \<in> refGraph ex_cyclic_ResolveRef"
  by (simp add: refGraph_def ex_cyclic_ResolveRef_def ex_cyclic_def ex_allOf_def ex_ref_def)

lemma ancestry_passed_walk_ends:
  assumes "validateCircularAncestry ResolveRef k sch {''#/definitions/'' @ k} = Inr ([], knowns')"
  shows "\<exists>fuel found knowns''.
           validateSchemaPropertyNames fuel ResolveRef k sch {} = Some (Inr (found, knowns''))"
proof -
  from assms have "firstRef sch = None"
    unfolding ancestry_of_definition
    by (auto simp: ancestry_outcome_def split: option.splits sum.splits)
  from ref_free_walk_ends[OF this, of ResolveRef] show ?thesis by blast
qed

lemma ex_Animal_ancestry:
  "validateCircularAncestry ex_ResolveRef ''Animal'' ex_Animal {''#/definitions/'' @ ''Animal''}
     = Inr ([''#/definitions/Being''], {''#/definitions/Being'', ''#/definitions/Animal''})"
  unfolding ancestry_of_definition
  by (simp add: ancestry_outcome_def ex_schema_defs ex_ResolveRef_def)

text \<open>
  Claim C10. (1) When the reference graph of the resolver is well-founded, that is
  acyclic, \<^verbatim>\<open>validateSchemaPropertyNames\<close> returns on every schema, for a large enough
  bound on the depth. (2) Acyclicity is needed: on the definition that reaches itself there
  is an edge from its pointer to itself, and the walk returns for no bound.
  (3) \<^verbatim>\<open>validateDuplicatePropertyNames\<close> returns on every list of definitions and every
  resolver, with no condition. (4) It runs the ancestry check first: when that check names
  an ancestor, the result is the circular-ancestry error, even for the bound 0 under which
  no walk can run; when it names none, the walk of that definition returns.
\<close>

theorem property_walk_ends_when_acyclic:
  "(wf (refGraph ResolveRef) \<longrightarrow>
      (\<exists>fuel out. validateSchemaPropertyNames fuel ResolveRef nm sch knowns = Some out))
   \<and> (''#/definitions/A'', ''#/definitions/A'') \<in> refGraph ex_cyclic_ResolveRef
   \<and> (\<forall>fuel. validateSchemaPropertyNames fuel ex_cyclic_ResolveRef ''A'' ex_cyclic {} = None)
   \<and> (\<exists>fuel out. validateDuplicatePropertyNames fuel ResolveRef defs = Some out)
   \<and> (length (AllOf sch) > 0
        \<and> validateCircularAncestry ResolveRef k sch {''#/definitions/'' @ k} = Inr (ancs, knowns')
      \<longrightarrow>
        (if length ancs > 0
         then validateDuplicatePropertyNames_range 0 ResolveRef ((k, sch) # defs) res
                = Some (Inr (AddErrors res [circular_ancestry_error k ancs]))
         else (\<exists>fuel found knowns''.
                 validateSchemaPropertyNames fuel ResolveRef k sch {}
                   = Some (Inr (found, knowns'')))))"
proof (intro conjI impI allI)
  assume "wf (refGraph ResolveRef)"
  then show "\<exists>fuel out. validateSchemaPropertyNames fuel ResolveRef nm sch knowns = Some out"
    by (rule acyclic_walk_ends)
next
  show "(''#/definitions/A'', ''#/definitions/A'') \<in> refGraph ex_cyclic_ResolveRef"
    by (rule cyclic_refGraph)
next
  fix fuel
  show "validateSchemaPropertyNames fuel ex_cyclic_ResolveRef ''A'' ex_cyclic {} = None"
    by (rule cyclic_definition_never_returns)
next
  from range_ends[of ResolveRef defs]
  show "\<exists>fuel out. validateDuplicatePropertyNames fuel ResolveRef defs = Some out"
    unfolding validateDuplicatePropertyNames_def by blast
next
  assume a: "length (AllOf sch) > 0
        \<and> validateCircularAncestry ResolveRef k sch {''#/definitions/'' @ k} = Inr (ancs, knowns')"
  show "if length ancs > 0
         then validateDuplicatePropertyNames_range 0 ResolveRef ((k, sch) # defs) res
                = Some (Inr (AddErrors res [circular_ancestry_error k ancs]))
         else (\<exists>fuel found knowns''.
                 validateSchemaPropertyNames fuel ResolveRef k sch {}
                   = Some (Inr (found, knowns'')))"
  proof (cases "length ancs > 0")
    case True
    with a show ?thesis by (simp add: validateDuplicatePropertyNames_range.simps(2)[of 0])
  next
    case False
    with a have "validateCircularAncestry ResolveRef k sch {''#/definitions/'' @ k}
        = Inr ([], knowns')" by simp
    from ancestry_passed_walk_ends[OF this] False show ?thesis by simp
  qed
qed

theorem property_walk_ends_when_acyclic_witness:
  "wf (refGraph ex_ResolveRef)
   \<and> (\<exists>fuel out. validateSchemaPropertyNames fuel ex_ResolveRef ''Dog'' ex_Dog {} = Some out)
   \<and> length (AllOf ex_Animal) > 0
   \<and> validateCircularAncestry ex_ResolveRef ''Animal'' ex_Animal {''#/definitions/'' @ ''Animal''}
       = Inr ([''#/definitions/Being''], {''#/definitions/Being'', ''#/definitions/Animal''})
   \<and> validateDuplicatePropertyNames_range 0 ex_ResolveRef
         [(''Animal'', ex_Animal), (''Dog'', ex_Dog)] new_Result
       = Some (Inr (AddErrors new_Result
           [circular_ancestry_error ''Animal'' [''#/definitions/Being'']]))"
proof -
  note t = property_walk_ends_when_acyclic[where ResolveRef = ex_ResolveRef]
  have l: "length (AllOf ex_Animal) > 0" by (simp add: ex_schema_defs)
  from t[where sch = ex_Dog and nm = "''Dog''" and knowns = "{}",
      THEN conjunct1, THEN mp, OF ex_refGraph_wf]
  have w: "\<exists>fuel out. validateSchemaPropertyNames fuel ex_ResolveRef ''Dog'' ex_Dog {} = Some out" .
  from t[where sch = ex_Animal and k = "''Animal''" and defs = "[(''Dog'', ex_Dog)]"
        and res = new_Result,
      THEN conjunct2, THEN conjunct2, THEN conjunct2, THEN conjunct2, THEN mp,
      OF conjI[OF l ex_Animal_ancestry]]
  have "validateDuplicatePropertyNames_range 0 ex_ResolveRef
         [(''Animal'', ex_Animal), (''Dog'', ex_Dog)] new_Result
       = Some (Inr (AddErrors new_Result
           [circular_ancestry_error ''Animal'' [''#/definitions/Being'']]))"
    by simp
  with w l ex_Animal_ancestry ex_refGraph_wf show ?thesis by blast
qed

section \<open>Properties of the driver\<close>

lemma merge_into_new: "Merge new_Result res = res"
  by (simp add: Merge_def new_Result_def)

text \<open>
  Claim C4. For a document value, when the raw bytes do not decode, when the meta-schema
  validator reports an error, or when reference expansion fails, \<^verbatim>\<open>Validate\<close> returns at
  once what it has gathered: the decoder's error, the meta-schema errors, or the
  expansion error, and the empty warnings. The result is the same for every document,
  resolver, pointer lookup, regular-expression library, sample-value outcome and depth
  bound (even 0, and even when a later phase would panic), so none of the seven later
  checks takes part in it and none of their diagnostics is in it.
\<close>

theorem validate_stops_at_gates:
  "(Unmarshal ext = Some err \<longrightarrow>
      Validate fuel ResolveRef Get compile ext (Some sd)
        = Some (Inr (\<lparr>Errors = [Failure err]\<rparr>, Some new_Result)))
   \<and> (Unmarshal ext = None \<and> HasErrors (SchemaValidate ext) \<longrightarrow>
      Validate fuel ResolveRef Get compile ext (Some sd)
        = Some (Inr (SchemaValidate ext, Some new_Result)))
   \<and> (Unmarshal ext = None \<and> \<not> HasErrors (SchemaValidate ext) \<and> Expanded ext = Some err \<longrightarrow>
      Validate fuel ResolveRef Get compile ext (Some sd)
        = Some (Inr (\<lparr>Errors = [Failure err]\<rparr>, Some new_Result)))"
proof (intro conjI impI)
  assume "Unmarshal ext = Some err"
  then show "Validate fuel ResolveRef Get compile ext (Some sd)
        = Some (Inr (\<lparr>Errors = [Failure err]\<rparr>, Some new_Result))"
    by (simp add: Validate_def AddErrors_def new_Result_def)
next
  assume "Unmarshal ext = None \<and> HasErrors (SchemaValidate ext)"
  then show "Validate fuel ResolveRef Get compile ext (Some sd)
        = Some (Inr (SchemaValidate ext, Some new_Result))"
    by (simp add: Validate_def merge_into_new)
next
  assume a: "Unmarshal ext = None \<and> \<not> HasErrors (SchemaValidate ext) \<and> Expanded ext = Some err"
  then have e: "Errors (SchemaValidate ext) = []" by (simp add: HasErrors_def)
  have m: "Merge (SchemaValidate ext) (validateReferencesValid ext) = \<lparr>Errors = [Failure err]\<rparr>"
    using a e by (simp add: Merge_def validateReferencesValid_def AddErrors_def new_Result_def)
  from a show "Validate fuel ResolveRef Get compile ext (Some sd)
        = Some (Inr (\<lparr>Errors = [Failure err]\<rparr>, Some new_Result))"
    by (simp add: Validate_def merge_into_new m HasErrors_def)
qed

text \<open>
  A document whose operation identifiers repeat and whose definitions would make the
  property check report; sample-value phases that would panic; and collaborators for
  which the meta-schema fails, or only the expansion does.
\<close>

definition ex_document :: document where
  "ex_document = \<lparr>Operations = [], ParamsFor = (\<lambda>method path. []),
     OperationIDs = [''getPet'', ''getPet''], Definitions = [(''Dog'', ex_Dog)]\<rparr>"

definition ex_meta_schema_fails :: collaborators where
  "ex_meta_schema_fails = \<lparr>Unmarshal = None,
     SchemaValidate = \<lparr>Errors = [Failure ''.swagger in body is required'']\<rparr>,
     Expanded = Some ''object has no key'',
     DefaultValueValidAgainstSchema = Inl NilDereference,
     ExamplesValidAgainstSchema = Inl NilDereference\<rparr>"

definition ex_expansion_fails :: collaborators where
  "ex_expansion_fails = \<lparr>Unmarshal = None,
     SchemaValidate = \<lparr>Errors = []\<rparr>,
     Expanded = Some ''object has no key'',
     DefaultValueValidAgainstSchema = Inl NilDereference,
     ExamplesValidAgainstSchema = Inl NilDereference\<rparr>"

theorem validate_stops_at_gates_witness:
  "Unmarshal ex_meta_schema_fails = None \<and> HasErrors (SchemaValidate ex_meta_schema_fails)
   \<and> Validate 0 ex_ResolveRef (\<lambda>r. Inr OtherObject) (\<lambda>pp. None) ex_meta_schema_fails
         (Some ex_document)
       = Some (Inr (\<lparr>Errors = [Failure ''.swagger in body is required'']\<rparr>, Some new_Result))
   \<and> Unmarshal ex_expansion_fails = None \<and> \<not> HasErrors (SchemaValidate ex_expansion_fails)
   \<and> Expanded ex_expansion_fails = Some ''object has no key''
   \<and> Validate 0 ex_ResolveRef (\<lambda>r. Inr OtherObject) (\<lambda>pp. None) ex_expansion_fails
         (Some ex_document)
       = Some (Inr (\<lparr>Errors = [Failure ''object has no key'']\<rparr>, Some new_Result))"
proof -
  have a: "Unmarshal ex_meta_schema_fails = None \<and> HasErrors (SchemaValidate ex_meta_schema_fails)"
    by (simp add: ex_meta_schema_fails_def HasErrors_def)
  have b: "Unmarshal ex_expansion_fails = None \<and> \<not> HasErrors (SchemaValidate ex_expansion_fails)
      \<and> Expanded ex_expansion_fails = Some ''object has no key''"
    by (simp add: ex_expansion_fails_def HasErrors_def)
  have s: "SchemaValidate ex_meta_schema_fails
      = \<lparr>Errors = [Failure ''.swagger in body is required'']\<rparr>"
    by (simp add: ex_meta_schema_fails_def)
  from validate_stops_at_gates[where ext = ex_meta_schema_fails,
      THEN conjunct2, THEN conjunct1, THEN mp, OF a]
    validate_stops_at_gates[where ext = ex_expansion_fails,
      THEN conjunct2, THEN conjunct2, THEN mp, OF b]
    a b s
  show ?thesis by simp
qed

end
